theory Spec2Isabelle
  imports Complex_Main
begin

section \<open>Arrays\<close>

text \<open>
  The notebooks work on xarray/numpy arrays.  A two-dimensional array with dimensions
  \<open>(nlat, nlon)\<close> is a list of rows, read \<open>a ! j ! i\<close>; a three-dimensional array
  with dimensions \<open>(z_t, nlat, nlon)\<close> is a list of levels, read \<open>a ! k ! j ! i\<close>.
  The depth index \<open>KMT\<close> holds integers; a cell value of a regridded field is a
  \<open>real option\<close>, \<open>None\<close> being the missing value (NaN).
\<close>

type_synonym 'a arr2 = "'a list list"
type_synonym 'a arr3 = "'a list list list"

definition nj_of :: "'a arr2 \<Rightarrow> nat" where
  "nj_of a = length a"

definition ni_of :: "'a arr2 \<Rightarrow> nat" where
  "ni_of a = (case a of [] \<Rightarrow> 0 | r # _ \<Rightarrow> length r)"

text \<open>An array of shape \<open>(nj, ni)\<close>, and one of shape \<open>(nk, nj, ni)\<close>.\<close>

definition shape2 :: "nat \<Rightarrow> nat \<Rightarrow> 'a arr2 \<Rightarrow> bool" where
  "shape2 nj ni a = (length a = nj \<and> list_all (\<lambda>r. length r = ni) a)"

definition shape3 :: "nat \<Rightarrow> nat \<Rightarrow> nat \<Rightarrow> 'a arr3 \<Rightarrow> bool" where
  "shape3 nk nj ni a = (length a = nk \<and> list_all (shape2 nj ni) a)"

text \<open>Arrays built cell by cell, as the broadcasting array expressions of xarray do.\<close>

definition tabulate2 :: "nat \<Rightarrow> nat \<Rightarrow> (nat \<Rightarrow> nat \<Rightarrow> 'a) \<Rightarrow> 'a arr2" where
  "tabulate2 nj ni f = map (\<lambda>j. map (\<lambda>i. f j i) [0..<ni]) [0..<nj]"

definition tabulate3 :: "nat \<Rightarrow> nat \<Rightarrow> nat \<Rightarrow> (nat \<Rightarrow> nat \<Rightarrow> nat \<Rightarrow> 'a) \<Rightarrow> 'a arr3" where
  "tabulate3 nk nj ni f = map (\<lambda>k. tabulate2 nj ni (f k)) [0..<nk]"

text \<open>
  Elementwise operations on arrays of one shape.  \<open>xr.where(c, x, y)\<close> takes \<open>x\<close>
  where \<open>c\<close> holds and \<open>y\<close> elsewhere.
\<close>

definition map3d :: "('a \<Rightarrow> 'b) \<Rightarrow> 'a arr3 \<Rightarrow> 'b arr3" where
  "map3d f a = map (map (map f)) a"

definition zip3d :: "'a arr3 \<Rightarrow> 'b arr3 \<Rightarrow> ('a \<times> 'b) arr3" where
  "zip3d a b = map2 (map2 zip) a b"

definition where2 :: "bool arr2 \<Rightarrow> 'a arr2 \<Rightarrow> 'a arr2 \<Rightarrow> 'a arr2" where
  "where2 c x y =
     map2 (\<lambda>cr (xr, yr). map2 (\<lambda>b (u, v). if b then u else v) cr (zip xr yr)) c (zip x y)"

definition where3 :: "bool arr3 \<Rightarrow> 'a arr3 \<Rightarrow> 'a arr3 \<Rightarrow> 'a arr3" where
  "where3 c x y = map2 (\<lambda>cl (xl, yl). where2 cl xl yl) c (zip x y)"

text \<open>
  \<open>a.where(m)\<close> keeps the values where \<open>m\<close> holds and puts the missing value
  elsewhere; \<open>fillna(0.)\<close> replaces the missing values by 0.
\<close>

definition where_mask :: "'a arr3 \<Rightarrow> bool arr3 \<Rightarrow> 'a option arr3" where
  "where_mask a m = map3d (\<lambda>(v, b). if b then Some v else None) (zip3d a m)"

definition fillna :: "'a \<Rightarrow> 'a option arr3 \<Rightarrow> 'a arr3" where
  "fillna c a = map3d (\<lambda>v. case v of None \<Rightarrow> c | Some x \<Rightarrow> x) a"

section \<open>Land-adjacent points (Fe sediment flux notebook)\<close>

subsection \<open>Periodic shifts\<close>

text \<open>
  \<open>numpy.roll\<close> along one axis: the element at index \<open>i\<close> moves to index
  \<open>(i + shift) mod n\<close>.  \<open>DataArray.roll(nlat=jroll, nlon=iroll, roll_coords=False)\<close>
  rolls both axes of the data.
\<close>

definition roll :: "int \<Rightarrow> 'a list \<Rightarrow> 'a list" where
  "roll shift xs = rotate (nat ((- shift) mod int (length xs))) xs"

definition roll2 :: "int \<Rightarrow> int \<Rightarrow> 'a arr2 \<Rightarrow> 'a arr2" where
  "roll2 jroll iroll a = roll jroll (map (roll iroll) a)"

text \<open>
  The loop \<open>for iroll, jroll in product([-1, 0, 1], [-1, 0, 1])\<close> that skips
  \<open>(0, 0)\<close>: the eight pairs in the order of the \<open>corner\<close> dimension.
\<close>

definition corners :: "(int \<times> int) list" where
  "corners = filter (\<lambda>(iroll, jroll). \<not> (iroll = 0 \<and> jroll = 0))
               (List.product [- 1, 0, 1] [- 1, 0, 1])"

text \<open>\<open>kmt_neighbors[:, :, n]\<close> for \<open>n = 0, ..., 7\<close>, as a list of eight arrays.\<close>

definition kmt_neighbors :: "int arr2 \<Rightarrow> int arr2 list" where
  "kmt_neighbors kmt_rollable =
     map (\<lambda>(iroll, jroll). roll2 jroll iroll kmt_rollable) corners"

text \<open>The eight values along the \<open>corner\<close> dimension at the cell \<open>(j, i)\<close>.\<close>

definition neighbor_depth :: "int arr2 list \<Rightarrow> nat \<Rightarrow> nat \<Rightarrow> int list" where
  "neighbor_depth nb j i = map (\<lambda>a. a ! j ! i) nb"

subsection \<open>The classification\<close>

text \<open>
  \<open>side_wall_present = (kmt_neighbors <= ds.KMT).any(dim='corner')\<close> and
  \<open>side_wall_kmt_min = kmt_neighbors.min(dim='corner')\<close>: the minimum runs over all
  eight corners.
\<close>

definition side_wall_present :: "int arr2 list \<Rightarrow> int arr2 \<Rightarrow> bool arr2" where
  "side_wall_present nb KMT =
     tabulate2 (nj_of KMT) (ni_of KMT)
       (\<lambda>j i. list_ex (\<lambda>d. d \<le> KMT ! j ! i) (neighbor_depth nb j i))"

definition side_wall_kmt_min :: "int arr2 list \<Rightarrow> int arr2 \<Rightarrow> int arr2" where
  "side_wall_kmt_min nb KMT =
     tabulate2 (nj_of KMT) (ni_of KMT) (\<lambda>j i. Min (set (neighbor_depth nb j i)))"

text \<open>
  \<open>MASK\<close> is 1 where \<open>ZERO_TO_KM < KMT\<close>, that is where the level \<open>k\<close> is above the
  bottom of the column, and 0 elsewhere; \<open>True\<close> stands for 1.
\<close>

definition MASK :: "nat \<Rightarrow> int arr2 \<Rightarrow> bool arr3" where
  "MASK nk KMT = tabulate3 nk (nj_of KMT) (ni_of KMT) (\<lambda>k j i. int k < KMT ! j ! i)"

text \<open>
  Lines 911 to 929 of the notebook, from the array that is rolled and \<open>ds.KMT\<close>;
  \<open>True\<close> stands for the value 1 of \<open>land_adjacent\<close>.
\<close>

definition land_adjacent :: "int arr2 \<Rightarrow> int arr2 \<Rightarrow> nat \<Rightarrow> bool arr3" where
  "land_adjacent kmt_rollable KMT nk =
     (let nb = kmt_neighbors kmt_rollable;
          swp = side_wall_present nb KMT;
          swmin = side_wall_kmt_min nb KMT
      in tabulate3 nk (nj_of KMT) (ni_of KMT)
           (\<lambda>k j i. (swp ! j ! i \<and> int k < KMT ! j ! i \<and> swmin ! j ! i \<le> int k)
                     \<or> int k = KMT ! j ! i - 1))"

text \<open>
  For comparison with \<open>kmt_neighbors\<close>, the neighbour depths as section 4.1 of the
  specification words them: the \<open>i\<close> index wraps modulo \<open>ni\<close> and the \<open>j\<close> index is a
  plain shift without wrap, so that a cell of the first or the last row has no
  neighbour beyond the edge of the array.
\<close>

definition spec_neighbor_depth :: "int arr2 \<Rightarrow> nat \<Rightarrow> nat \<Rightarrow> int list" where
  "spec_neighbor_depth bottom_index j i =
     concat (map (\<lambda>(di, dj).
                if 0 \<le> int j + dj \<and> int j + dj < int (nj_of bottom_index)
                then [bottom_index ! nat (int j + dj)
                        ! nat ((int i + di) mod int (ni_of bottom_index))]
                else [])
       [(1, 1), (1, 0), (1, - 1), (0, 1), (0, - 1), (- 1, 1), (- 1, 0), (- 1, - 1)])"

subsection \<open>The notebook cell and the array it shares with the dataset\<close>

text \<open>
  \<open>kmt_rollable = ds.KMT\<close> binds a second name to the array of the dataset: both names
  hold the same address of the store, and an assignment through one is seen through the
  other.
\<close>

type_synonym addr = nat
type_synonym heap = "addr \<Rightarrow> int arr2"

datatype error = ValueError | IndexError | KeyError

text \<open>
  The right-hand side of an indexed assignment carries its dimensions: an array along
  \<open>nlon\<close> only, or one along \<open>(nlat, nlon)\<close>.
\<close>

datatype 'a rhs = Along_nlon "'a list" | Along_nlat_nlon "'a arr2"

text \<open>
  \<open>a[0, :] = v\<close> on a \<open>DataArray\<close> with dimensions \<open>(nlat, nlon)\<close>.  The target
  \<open>a[0, :]\<close> has the single dimension \<open>nlon\<close>; it does not exist when the array has
  no row (IndexError).  xarray broadcasts the value to the dimensions of the target: a
  value that has a dimension the target lacks is refused with a ValueError, and so is a
  row of another length (a row of length one is repeated).
\<close>

fun setitem_row0 :: "'a arr2 \<Rightarrow> 'a rhs \<Rightarrow> error + 'a arr2" where
  "setitem_row0 [] v = Inl IndexError"
| "setitem_row0 (r # rs) (Along_nlat_nlon a) = Inl ValueError"
| "setitem_row0 (r # rs) (Along_nlon row) =
     (if length row = length r then Inr (row # rs)
      else if length row = 1 then Inr (replicate (length r) (hd row) # rs)
      else Inl ValueError)"

text \<open>
  Lines 903 to 929.  With \<open>ltripole\<close> the cell runs
  \<open>kmt_rollable[0, :] = kmt_rollable[::-1, :]\<close>, whose right-hand side is the whole
  array with the order of its rows reversed, a value with the dimensions
  \<open>(nlat, nlon)\<close>.  The result is the error or the array \<open>land_adjacent\<close>, together
  with the store the cell leaves.
\<close>

definition land_adjacent_points ::
  "bool \<Rightarrow> nat \<Rightarrow> addr \<Rightarrow> heap \<Rightarrow> (error + bool arr3) \<times> heap" where
  "land_adjacent_points ltripole nk ds_KMT h =
     (let kmt_rollable = ds_KMT in
      case (if ltripole
            then map_sum id (\<lambda>a. h(kmt_rollable := a))
                   (setitem_row0 (h kmt_rollable) (Along_nlat_nlon (rev (h kmt_rollable))))
            else Inr h) of
        Inl e \<Rightarrow> (Inl e, h)
      | Inr h' \<Rightarrow> (Inr (land_adjacent (h' kmt_rollable) (h' ds_KMT) nk), h'))"

subsection \<open>The minimum sediment fraction at land-adjacent points\<close>

text \<open>
  Lines 962 to 966.  \<open>sedfrac\<close> holds no missing value: the cell that reads it ends
  with \<open>fillna(0.)\<close>.  The comparison and the selection are exact on floating-point
  numbers, so the values are taken as reals.  The arguments \<open>land_adj\<close> and \<open>omask\<close>
  stand for the arrays \<open>land_adjacent\<close> and \<open>MASK\<close> of the notebook, \<open>True\<close> for
  the value 1.
\<close>

definition sedfrac_mod :: "bool arr3 \<Rightarrow> real arr3 \<Rightarrow> real \<Rightarrow> bool arr3 \<Rightarrow> real arr3" where
  "sedfrac_mod land_adj sedfrac land_adj_sedfrac_min omask =
     (let floored =
            where3 (map3d (\<lambda>(la, s). la \<and> s < land_adj_sedfrac_min) (zip3d land_adj sedfrac))
              (map3d (\<lambda>_. land_adj_sedfrac_min) sedfrac) sedfrac
      in fillna 0 (where_mask floored omask))"

section \<open>Vertical fill (initial conditions notebook)\<close>

text \<open>
  A regridded tracer is an array of \<open>real option\<close>, \<open>None\<close> being the missing value.
  \<open>MASK\<close> of this notebook holds \<open>True\<close> where \<open>ZERO_TO_KM < KMT\<close>, and
  \<open>MASK == 1.\<close> holds exactly where \<open>MASK\<close> is \<open>True\<close>; the argument \<open>omask\<close>
  below stands for it.
\<close>

type_synonym field = "real option arr3"

definition isnull :: "field \<Rightarrow> bool arr3" where
  "isnull a = map3d (\<lambda>v. v = None) a"

definition and3d :: "bool arr3 \<Rightarrow> bool arr3 \<Rightarrow> bool arr3" where
  "and3d a b = map3d (\<lambda>(x, y). x \<and> y) (zip3d a b)"

definition any3d :: "bool arr3 \<Rightarrow> bool" where
  "any3d a = list_ex (list_ex (list_ex (\<lambda>b. b))) a"

text \<open>
  One turn of the loop \<open>for k in range(1, nk)\<close>: level \<open>k\<close> of the tracer is assigned
  \<open>xr.where(unfilled[k], tracer[k-1], tracer[k])\<close>, where \<open>unfilled\<close> was computed
  before the loop and level \<open>k - 1\<close> is read from the tracer as it is by then.
\<close>

definition fill_level :: "bool arr3 \<Rightarrow> nat \<Rightarrow> field \<Rightarrow> field" where
  "fill_level unfilled k tracer =
     tracer[k := where2 (unfilled ! k) (tracer ! (k - 1)) (tracer ! k)]"

definition fill_loop :: "bool arr3 \<Rightarrow> nat \<Rightarrow> field \<Rightarrow> field" where
  "fill_loop unfilled nk tracer = fold (fill_level unfilled) [1..<nk] tracer"

text \<open>
  Lines 283 to 290: the tracer after the vertical fill, and the messages passed to
  \<open>warnings.warn\<close>.
\<close>

definition vertical_fill :: "string \<Rightarrow> nat \<Rightarrow> bool arr3 \<Rightarrow> field \<Rightarrow> field \<times> string list" where
  "vertical_fill tracername nk omask tracer_full_regrid =
     (let unfilled = and3d (isnull tracer_full_regrid) omask in
      if any3d unfilled then
        (let tracer = fill_loop unfilled nk tracer_full_regrid in
         if any3d (and3d (isnull tracer) omask)
         then (tracer, [tracername @ '' still has missing values''])
         else (tracer, []))
      else (tracer_full_regrid, []))"

subsection \<open>The output dataset\<close>

text \<open>
  A variable of a dataset is an object with its values and its attributes.  The store
  \<open>objs\<close> lists the objects, an address is a position in it, and \<open>ds_out\<close> maps the
  names of the variables of the dataset to addresses.  \<open>ds_out[name]\<close> gives a
  \<open>DataArray\<close> over the object of the dataset itself, or raises KeyError;
  \<open>ds_out[name] = da\<close> puts a new object into the dataset, a copy of the variable of
  \<open>da\<close>.  The state also holds the messages passed to \<open>warnings.warn\<close> so far.
\<close>

record variable =
  vals :: field
  attrs :: "string \<rightharpoonup> string"

record ic_state =
  ds_out :: "string \<rightharpoonup> addr"
  objs :: "variable list"
  warned :: "string list"

definition getitem :: "ic_state \<Rightarrow> string \<Rightarrow> error + addr" where
  "getitem st name = (case ds_out st name of None \<Rightarrow> Inl KeyError | Some a \<Rightarrow> Inr a)"

definition setitem :: "string \<Rightarrow> variable \<Rightarrow> ic_state \<Rightarrow> ic_state" where
  "setitem name v st =
     st\<lparr>ds_out := (ds_out st)(name \<mapsto> length (objs st)), objs := objs st @ [v]\<rparr>"

text \<open>The variable that the dataset holds under a name.\<close>

definition lookup :: "ic_state \<Rightarrow> string \<Rightarrow> variable option" where
  "lookup st name = map_option (\<lambda>a. objs st ! a) (ds_out st name)"

text \<open>
  The end of one turn of the loop over the tracers (lines 282 to 292): the vertical fill
  of the values of \<open>tracer_full_regrid\<close>, then \<open>ds_out[tracername] = tracer_full_regrid\<close>.
\<close>

definition fill_and_store ::
  "string \<Rightarrow> nat \<Rightarrow> bool arr3 \<Rightarrow> variable \<Rightarrow> ic_state \<Rightarrow> ic_state" where
  "fill_and_store tracername nk omask tracer_full_regrid st =
     (case vertical_fill tracername nk omask (vals tracer_full_regrid) of
        (tracer, msgs) \<Rightarrow>
          setitem tracername (tracer_full_regrid\<lparr>vals := tracer\<rparr>)
            (st\<lparr>warned := warned st @ msgs\<rparr>))"

section \<open>Derived quantities (initial conditions notebook)\<close>

text \<open>
  \<open>da.values = v\<close> replaces the values of the object under \<open>da\<close>; xarray refuses values
  of another shape with a ValueError.  \<open>da.attrs[key] = text\<close> changes the attributes of
  the same object.
\<close>

definition shape_of :: "'a arr3 \<Rightarrow> nat list list" where
  "shape_of a = map (map length) a"

definition set_values :: "addr \<Rightarrow> field \<Rightarrow> ic_state \<Rightarrow> error + ic_state" where
  "set_values a v st =
     (if shape_of v = shape_of (vals (objs st ! a))
      then Inr (st\<lparr>objs := (objs st)[a := (objs st ! a)\<lparr>vals := v\<rparr>]\<rparr>)
      else Inl ValueError)"

definition set_attr :: "addr \<Rightarrow> string \<Rightarrow> string \<Rightarrow> ic_state \<Rightarrow> ic_state" where
  "set_attr a key txt st =
     st\<lparr>objs := (objs st)[a := (objs st ! a)\<lparr>attrs := (attrs (objs st ! a))(key \<mapsto> txt)\<rparr>]\<rparr>"

text \<open>A statement that raises ends the cell; otherwise the next statement runs.\<close>

definition and_then :: "error + 'a \<Rightarrow> ('a \<Rightarrow> error + 'b) \<Rightarrow> error + 'b" where
  "and_then r f = (case r of Inl e \<Rightarrow> Inl e | Inr x \<Rightarrow> f x)"

text \<open>\<open>ds_out[new] = ds_out[old]\<close>.\<close>

definition copy_variable :: "string \<Rightarrow> string \<Rightarrow> ic_state \<Rightarrow> error + ic_state" where
  "copy_variable new old st =
     and_then (getitem st old) (\<lambda>a. Inr (setitem new (objs st ! a) st))"

text \<open>
  Lines 426 to 431.  \<open>DOCtot = ds_out['DOC']\<close> is the \<open>DataArray\<close> over the object that
  the dataset holds under \<open>DOC\<close>.  The sum of the two arrays of values is numpy's
  elementwise addition of floating-point numbers, a parameter \<open>np_add\<close> here.
\<close>

definition derived_quantities ::
  "(field \<Rightarrow> field \<Rightarrow> field) \<Rightarrow> ic_state \<Rightarrow> error + ic_state" where
  "derived_quantities np_add st0 =
     and_then (copy_variable ''DIC_ALT_CO2'' ''DIC'' st0) (\<lambda>st1.
     and_then (copy_variable ''ALK_ALT_CO2'' ''ALK'' st1) (\<lambda>st2.
     and_then (getitem st2 ''DOC'') (\<lambda>DOCtot.
     and_then (getitem st2 ''DOC'') (\<lambda>doc.
     and_then (getitem st2 ''DOCr'') (\<lambda>docr.
     and_then (set_values DOCtot (np_add (vals (objs st2 ! doc)) (vals (objs st2 ! docr))) st2)
       (\<lambda>st3.
          let st4 = set_attr DOCtot ''long_name'' ''DOC + DOCr'' st3
          in Inr (setitem ''DOCtot'' (objs st4 ! DOCtot) st4)))))))"

section \<open>Properties of the land-adjacent classification\<close>

subsection \<open>Reading arrays and periodic shifts\<close>

lemma nth_tabulate2:
  "j < nj \<Longrightarrow> i < ni \<Longrightarrow> tabulate2 nj ni f ! j ! i = f j i"
  by (simp add: tabulate2_def)

lemma nth_tabulate3:
  "k < nk \<Longrightarrow> j < nj \<Longrightarrow> i < ni \<Longrightarrow> tabulate3 nk nj ni f ! k ! j ! i = f k j i"
  by (simp add: tabulate3_def nth_tabulate2)

lemma shape2_tabulate2: "shape2 nj ni (tabulate2 nj ni f)"
  by (simp add: shape2_def tabulate2_def list_all_iff)

lemma shape3_tabulate3: "shape3 nk nj ni (tabulate3 nk nj ni f)"
  by (simp add: shape3_def tabulate3_def list_all_iff shape2_tabulate2)

lemma shape2_dims:
  "shape2 nj ni a \<Longrightarrow> 0 < nj \<Longrightarrow> nj_of a = nj \<and> ni_of a = ni"
  by (cases a) (auto simp: shape2_def nj_of_def ni_of_def)

lemma shape2_row: "shape2 nj ni a \<Longrightarrow> j < nj \<Longrightarrow> length (a ! j) = ni"
  by (simp add: shape2_def list_all_length)

lemma length_roll: "length (roll s xs) = length xs"
  by (simp add: roll_def)

lemma nth_roll:
  assumes "i < length xs"
  shows "roll s xs ! i = xs ! nat ((int i - s) mod int (length xs))"
proof -
  let ?n = "length xs"
  have n: "0 < int ?n" using assms by (cases xs) auto
  have "(int i + (- s) mod int ?n) mod int ?n = (int i + (- s)) mod int ?n"
    by (rule mod_add_right_eq)
  then have "int ((nat ((- s) mod int ?n) + i) mod ?n) = (int i - s) mod int ?n"
    using n by (simp add: zmod_int add.commute)
  then have "(nat ((- s) mod int ?n) + i) mod ?n = nat ((int i - s) mod int ?n)"
    by linarith
  then show ?thesis using assms by (auto simp: roll_def nth_rotate)
qed

lemma nth_roll2:
  assumes "shape2 nj ni a" "j < nj" "i < ni"
  shows "roll2 jroll iroll a ! j ! i
         = a ! nat ((int j - jroll) mod int nj) ! nat ((int i - iroll) mod int ni)"
proof -
  let ?j' = "nat ((int j - jroll) mod int nj)"
  have len: "length a = nj" using assms(1) by (simp add: shape2_def)
  have j': "?j' < nj" using assms(2) by (simp add: nat_less_iff)
  have "roll2 jroll iroll a ! j = map (roll iroll) a ! ?j'"
    using assms(2) len by (simp add: roll2_def nth_roll)
  also have "\<dots> = roll iroll (a ! ?j')" using j' len by simp
  finally show ?thesis
    using assms(3) shape2_row[OF assms(1) j'] by (simp add: nth_roll)
qed

lemma neighbor_depth_kmt_neighbors:
  assumes "shape2 nj ni a" "j < nj" "i < ni"
  shows "neighbor_depth (kmt_neighbors a) j i
         = map (\<lambda>(iroll, jroll).
                  a ! nat ((int j - jroll) mod int nj) ! nat ((int i - iroll) mod int ni))
             corners"
  using assms by (simp add: neighbor_depth_def kmt_neighbors_def nth_roll2 case_prod_unfold)

lemma corners_eq:
  "corners = [(- 1, - 1), (- 1, 0), (- 1, 1), (0, - 1), (0, 1), (1, - 1), (1, 0), (1, 1)]"
  by (simp add: corners_def)

lemma neighbor_depth_periodic:
  assumes "shape2 nj ni kmt" "j < nj" "i < ni"
  shows "neighbor_depth (kmt_neighbors kmt) j i
       = map (\<lambda>(di, dj). kmt ! nat ((int j + dj) mod int nj) ! nat ((int i + di) mod int ni))
           [(1, 1), (1, 0), (1, - 1), (0, 1), (0, - 1), (- 1, 1), (- 1, 0), (- 1, - 1)]"
  using assms by (simp add: neighbor_depth_kmt_neighbors corners_eq)

lemma Min_qualifying:
  assumes "d0 \<in> set ds" "d0 \<le> (b::int)"
  shows "Min {d \<in> set ds. d \<le> b} = Min (set ds)"
proof (rule antisym)
  have "Min (set ds) \<le> d0" using assms(1) by simp
  moreover have "Min (set ds) \<in> set ds" using assms(1) by (intro Min_in) auto
  ultimately have "Min (set ds) \<in> {d \<in> set ds. d \<le> b}" using assms(2) by simp
  then show "Min {d \<in> set ds. d \<le> b} \<le> Min (set ds)" by simp
next
  show "Min (set ds) \<le> Min {d \<in> set ds. d \<le> b}"
    using assms by (intro Min_antimono) auto
qed

lemma land_adjacent_cell_rule:
  assumes "k < nk" "j < nj_of KMT" "i < ni_of KMT"
  shows "land_adjacent kr KMT nk ! k ! j ! i
         = ((list_ex (\<lambda>d. d \<le> KMT ! j ! i) (neighbor_depth (kmt_neighbors kr) j i)
              \<and> int k < KMT ! j ! i
              \<and> Min (set (neighbor_depth (kmt_neighbors kr) j i)) \<le> int k)
            \<or> int k = KMT ! j ! i - 1)"
  using assms
  by (simp add: land_adjacent_def Let_def nth_tabulate3 nth_tabulate2
      side_wall_present_def side_wall_kmt_min_def)

lemma land_adjacent_points_False:
  "land_adjacent_points False nk a h = (Inr (land_adjacent (h a) (h a) nk), h)"
  by (simp add: land_adjacent_points_def)

lemma land_adjacent_points_True:
  "land_adjacent_points True nk a h
   = (Inl (if h a = [] then IndexError else ValueError), h)"
  by (cases "h a") (simp_all add: land_adjacent_points_def)

lemma tabulate2_const:
  assumes "\<And>j i. j < nj \<Longrightarrow> i < ni \<Longrightarrow> f j i = c"
  shows "tabulate2 nj ni f = replicate nj (replicate ni c)"
proof -
  have "map (\<lambda>i. f j i) [0..<ni] = replicate ni c" if "j < nj" for j
  proof -
    have "map (\<lambda>i. f j i) [0..<ni] = map (\<lambda>i. c) [0..<ni]"
      using assms that by (intro map_cong) auto
    then show ?thesis by (simp add: map_replicate_const)
  qed
  then have "map (\<lambda>j. map (\<lambda>i. f j i) [0..<ni]) [0..<nj]
             = map (\<lambda>j. replicate ni c) [0..<nj]"
    by (intro map_cong) auto
  then show ?thesis by (simp add: tabulate2_def map_replicate_const)
qed

lemma tabulate3_const:
  assumes "\<And>k j i. k < nk \<Longrightarrow> j < nj \<Longrightarrow> i < ni \<Longrightarrow> f k j i = c"
  shows "tabulate3 nk nj ni f = replicate nk (replicate nj (replicate ni c))"
proof -
  have "map (\<lambda>k. tabulate2 nj ni (f k)) [0..<nk]
        = map (\<lambda>k. replicate nj (replicate ni c)) [0..<nk]"
    using assms by (intro map_cong) (auto intro: tabulate2_const)
  then show ?thesis by (simp add: tabulate3_def map_replicate_const)
qed

lemma land_adjacent_all_land:
  assumes "shape2 nj ni KMT" "0 < nj" "list_all (list_all (\<lambda>d. d = 0)) KMT"
  shows "land_adjacent kr KMT nk = replicate nk (replicate nj (replicate ni False))"
proof -
  have dims: "nj_of KMT = nj" "ni_of KMT = ni"
    using shape2_dims[OF assms(1,2)] by simp_all
  have zero: "KMT ! j ! i = 0" if "j < nj" "i < ni" for j i
    using assms(1,3) that by (simp add: shape2_def list_all_length)
  show ?thesis
    unfolding land_adjacent_def Let_def dims
    by (rule tabulate3_const) (simp add: zero)
qed

lemma land_adjacent_side_wall:
  assumes "k < nk" "j < nj_of KMT" "i < ni_of KMT"
    and "d \<in> set (neighbor_depth (kmt_neighbors kr) j i)" "d \<le> int k" "int k < KMT ! j ! i"
  shows "land_adjacent kr KMT nk ! k ! j ! i"
proof -
  let ?nd = "neighbor_depth (kmt_neighbors kr) j i"
  have "Min (set ?nd) \<le> d" using assms(4) by simp
  then have "Min (set ?nd) \<le> int k" using assms(5) by linarith
  moreover have "list_ex (\<lambda>d. d \<le> KMT ! j ! i) ?nd"
    using assms(4-6) by (auto simp: list_ex_iff intro!: bexI[of _ d])
  ultimately show ?thesis
    using assms by (simp add: land_adjacent_cell_rule)
qed

subsection \<open>The classification rule\<close>

text \<open>
  Claim C1, as amended.  Without the tripole treatment the cell returns the array
  \<open>land_adjacent\<close>.  The eight neighbours of the cell \<open>(j, i)\<close> are the cells
  \<open>((j + dj) mod nj, (i + di) mod ni)\<close>, periodic along both dimensions.  A cell
  \<open>(k, j, i)\<close> of the grid is marked exactly when either the level is above the bottom
  of its column, one of the eight neighbour depths is at most the depth \<open>KMT[j, i]\<close>
  of the column, and the level is at or below the least of the neighbour depths that
  are at most \<open>KMT[j, i]\<close>; or the level is \<open>KMT[j, i] - 1\<close>.  A cell of a column with
  \<open>KMT = 0\<close> is never marked, and on a grid of land only the array is false
  everywhere.
\<close>

theorem land_adjacent_contract:
  assumes "shape2 nj ni (h ds_KMT)" and "k < nk" and "j < nj" and "i < ni"
  shows "let KMT = h ds_KMT;
             nd = map (\<lambda>(di, dj). KMT ! nat ((int j + dj) mod int nj)
                                     ! nat ((int i + di) mod int ni))
                    [(1, 1), (1, 0), (1, - 1), (0, 1), (0, - 1), (- 1, 1), (- 1, 0), (- 1, - 1)]
         in \<exists>la. fst (land_adjacent_points False nk ds_KMT h) = Inr la
     \<and> (la ! k ! j ! i \<longleftrightarrow>
          (int k < KMT ! j ! i
            \<and> (\<exists>d \<in> set nd. d \<le> KMT ! j ! i)
            \<and> Min (set (filter (\<lambda>d. d \<le> KMT ! j ! i) nd)) \<le> int k)
          \<or> int k = KMT ! j ! i - 1)
     \<and> (KMT ! j ! i = 0 \<longrightarrow> \<not> la ! k ! j ! i)
     \<and> (list_all (list_all (\<lambda>d. d = 0)) KMT
          \<longrightarrow> la = replicate nk (replicate nj (replicate ni False)))"
proof -
  let ?K = "h ds_KMT"
  let ?nd = "neighbor_depth (kmt_neighbors ?K) j i"
  let ?la = "land_adjacent ?K ?K nk"
  have dims: "nj_of ?K = nj" "ni_of ?K = ni"
    using shape2_dims[OF assms(1)] assms(3) by simp_all
  have rule: "?la ! k ! j ! i
      = ((list_ex (\<lambda>d. d \<le> ?K ! j ! i) ?nd \<and> int k < ?K ! j ! i \<and> Min (set ?nd) \<le> int k)
         \<or> int k = ?K ! j ! i - 1)"
    using assms(2-4) by (simp add: land_adjacent_cell_rule dims)
  have spec: "?la ! k ! j ! i \<longleftrightarrow>
          (int k < ?K ! j ! i \<and> (\<exists>d \<in> set ?nd. d \<le> ?K ! j ! i)
            \<and> Min (set (filter (\<lambda>d. d \<le> ?K ! j ! i) ?nd)) \<le> int k)
          \<or> int k = ?K ! j ! i - 1"
  proof (cases "\<exists>d \<in> set ?nd. d \<le> ?K ! j ! i")
    case True
    then obtain d0 where "d0 \<in> set ?nd" "d0 \<le> ?K ! j ! i" by blast
    then have "Min {d \<in> set ?nd. d \<le> ?K ! j ! i} = Min (set ?nd)"
      by (rule Min_qualifying)
    with True show ?thesis by (auto simp: rule list_ex_iff)
  next
    case False
    then show ?thesis by (auto simp: rule list_ex_iff)
  qed
  have land: "\<not> ?la ! k ! j ! i" if "?K ! j ! i = 0"
    using that by (simp add: rule)
  have all_land: "?la = replicate nk (replicate nj (replicate ni False))"
    if "list_all (list_all (\<lambda>d. d = 0)) ?K"
    using land_adjacent_all_land[OF assms(1) _ that] assms(3) by simp
  have run: "fst (land_adjacent_points False nk ds_KMT h) = Inr ?la"
    by (simp add: land_adjacent_points_False)
  show ?thesis
    unfolding Let_def neighbor_depth_periodic[OF assms(1,3,4), symmetric]
    using spec land all_land run by blast
qed

theorem land_adjacent_contract_witness:
  "\<exists>la. fst (land_adjacent_points False 3 0 (\<lambda>_. [[1, 3, 3], [3, 3, 3], [3, 3, 1]])) = Inr la
        \<and> la ! 1 ! 0 ! 2 \<and> \<not> la ! 0 ! 0 ! 2"
proof -
  have s: "shape2 3 3 ((\<lambda>_. [[1, 3, 3], [3, 3, 3], [3, 3, 1]]) (0::addr) :: int arr2)"
    by (simp add: shape2_def)
  have i: "(1::nat) < 3" "(0::nat) < 3" "(2::nat) < 3" by simp_all
  from land_adjacent_contract[of 3 3 "\<lambda>_. [[1, 3, 3], [3, 3, 3], [3, 3, 1]]" 0 1 3 0 2, OF s i(1) i(2) i(3)]
    land_adjacent_contract[of 3 3 "\<lambda>_. [[1, 3, 3], [3, 3, 3], [3, 3, 1]]" 0 0 3 0 2, OF s i(2) i(2) i(3)]
  show ?thesis by (auto simp add: Let_def simp del: set_filter)
qed

text \<open>
  Claim C1 reads the rule over the eight neighbours of the specification, whose shift
  along \<open>nlat\<close> does not wrap.  On a grid of three rows whose last row alone is
  shallow, the cell returns a mark for a cell of row 0 at level 2, although over the
  neighbours of the specification neither part of the rule holds there.
\<close>

theorem land_adjacent_spec_neighbors_counterexample:
  "(case fst (land_adjacent_points False 4 0 (\<lambda>_. [[4, 4], [4, 4], [2, 2]])) of
      Inl e \<Rightarrow> False | Inr la \<Rightarrow> la ! 2 ! 0 ! 0)
   \<and> \<not> ((int 2 < [[4, 4], [4, 4], [2, 2]] ! 0 ! 0
          \<and> (\<exists>d \<in> set (spec_neighbor_depth [[4, 4], [4, 4], [2, 2]] 0 0).
                d \<le> [[4, 4], [4, 4], [2, 2]] ! 0 ! 0)
          \<and> Min (set (filter (\<lambda>d. d \<le> [[4, 4], [4, 4], [2, 2]] ! 0 ! 0)
                        (spec_neighbor_depth [[4, 4], [4, 4], [2, 2]] 0 0))) \<le> int 2)
         \<or> int 2 = [[4, 4], [4, 4], [2, 2]] ! 0 ! 0 - 1)"
  by code_simp

subsection \<open>The fixture of the specification\<close>

text \<open>
  Claim C2, as amended.  On three levels and the \<open>3 \<times> 3\<close> grid with depth 2 at the
  centre and depth 1 around it, without the tripole treatment, the marked cells are the
  eight cells of the ring at level 0 and the centre at level 1.  The centre is not
  marked at level 0: the least neighbour depth is 1, and level 0 lies above it.
\<close>

theorem fixture_marks:
  "fst (land_adjacent_points False 3 0 (\<lambda>_. [[1, 1, 1], [1, 2, 1], [1, 1, 1]]))
   = Inr [[[True, True, True], [True, False, True], [True, True, True]],
          [[False, False, False], [False, True, False], [False, False, False]],
          [[False, False, False], [False, False, False], [False, False, False]]]"
  by code_simp

text \<open>
  The marking that claim C2 states, with the centre marked at level 0 too, is not what
  the cell returns.
\<close>

theorem fixture_center_surface_counterexample:
  "fst (land_adjacent_points False 3 0 (\<lambda>_. [[1, 1, 1], [1, 2, 1], [1, 1, 1]]))
   \<noteq> Inr [[[True, True, True], [True, True, True], [True, True, True]],
          [[False, False, False], [False, True, False], [False, False, False]],
          [[False, False, False], [False, False, False], [False, False, False]]]"
  by code_simp

subsection \<open>The topology of the shifts\<close>

text \<open>
  Claim C3, as amended.  The eight neighbour depths of the cell \<open>(j, i)\<close> are read at
  \<open>((j + dj) mod nj, (i + di) mod ni)\<close>: the shift is periodic along \<open>nlon\<close> and along
  \<open>nlat\<close>.  So a cell of the last column with a shallower neighbour in column 0 is
  marked from the depth of that neighbour down to its own bottom, and a cell of row 0
  is marked in the same way from the depth of the cell of the last row in its column.
\<close>

theorem neighbor_shift_periodic:
  assumes "shape2 nj ni kmt" and "j < nj" and "i < ni" and "k < nk"
  shows "neighbor_depth (kmt_neighbors kmt) j i
       = map (\<lambda>(di, dj). kmt ! nat ((int j + dj) mod int nj) ! nat ((int i + di) mod int ni))
           [(1, 1), (1, 0), (1, - 1), (0, 1), (0, - 1), (- 1, 1), (- 1, 0), (- 1, - 1)]
     \<and> (i = ni - 1 \<and> kmt ! j ! 0 \<le> int k \<and> int k < kmt ! j ! i
          \<longrightarrow> land_adjacent kmt kmt nk ! k ! j ! i)
     \<and> (j = 0 \<and> kmt ! (nj - 1) ! i \<le> int k \<and> int k < kmt ! j ! i
          \<longrightarrow> land_adjacent kmt kmt nk ! k ! j ! i)"
proof -
  let ?nd = "neighbor_depth (kmt_neighbors kmt) j i"
  have dims: "nj_of kmt = nj" "ni_of kmt = ni"
    using shape2_dims[OF assms(1)] assms(2) by simp_all
  have nd: "?nd = map (\<lambda>(di, dj). kmt ! nat ((int j + dj) mod int nj) ! nat ((int i + di) mod int ni))
           [(1, 1), (1, 0), (1, - 1), (0, 1), (0, - 1), (- 1, 1), (- 1, 0), (- 1, - 1)]"
    using assms(1-3) by (simp add: neighbor_depth_kmt_neighbors corners_eq)
  have east: "kmt ! j ! 0 \<in> set ?nd" if "i = ni - 1"
  proof -
    have "(int i + 1) mod int ni = 0" using that assms(3) by simp
    moreover have "int j mod int nj = int j" using assms(2) by simp
    ultimately have "kmt ! nat ((int j + 0) mod int nj) ! nat ((int i + 1) mod int ni) = kmt ! j ! 0"
      by simp
    then show ?thesis unfolding nd by (simp del: mod_pos_pos_trivial) 
  qed
  have south: "kmt ! (nj - 1) ! i \<in> set ?nd" if "j = 0"
  proof -
    have "nat ((int j + - 1) mod int nj) = nj - 1"
      using that assms(2) by (simp add: zmod_minus1)
    moreover have "nat ((int i + 0) mod int ni) = i" using assms(3) by simp
    ultimately have "kmt ! nat ((int j + - 1) mod int nj) ! nat ((int i + 0) mod int ni) = kmt ! (nj - 1) ! i"
      by simp
    then show ?thesis unfolding nd by (simp del: mod_pos_pos_trivial)
  qed
  have a: "land_adjacent kmt kmt nk ! k ! j ! i"
    if "i = ni - 1" "kmt ! j ! 0 \<le> int k" "int k < kmt ! j ! i"
    using land_adjacent_side_wall[OF assms(4), of j kmt i "kmt ! j ! 0" kmt] east that assms(2,3)
    by (simp add: dims)
  have b: "land_adjacent kmt kmt nk ! k ! j ! i"
    if "j = 0" "kmt ! (nj - 1) ! i \<le> int k" "int k < kmt ! j ! i"
    using land_adjacent_side_wall[OF assms(4), of j kmt i "kmt ! (nj - 1) ! i" kmt] south that assms(2,3)
    by (simp add: dims)
  show ?thesis using nd a b by blast
qed

theorem neighbor_shift_periodic_witness:
  "land_adjacent [[1, 3, 3], [3, 3, 3], [3, 3, 1]] [[1, 3, 3], [3, 3, 3], [3, 3, 1]] 3
     ! 1 ! 0 ! 2"
proof -
  have "shape2 3 3 [[1, 3, 3], [3, 3, 3], [3, 3, (1::int)]]" and "(0::nat) < 3"
    and "(2::nat) < 3" and "(1::nat) < 3"
    by (simp_all add: shape2_def)
  from neighbor_shift_periodic[OF this]
  show ?thesis by simp
qed

text \<open>
  Claim C3 states that the shift along \<open>nlat\<close> does not wrap.  On a grid of four rows
  whose last row alone is shallow, the neighbour depths of a cell of row 0 are not all
  depths of rows 0 and 1, and the cell is marked at level 1, two levels above its own
  bottom.
\<close>

theorem nlat_shift_wraps_counterexample:
  "\<not> set (neighbor_depth (kmt_neighbors [[3, 3, 3], [3, 3, 3], [3, 3, 3], [1, 1, 1]]) 0 1)
       \<subseteq> set ([[3, 3, 3], [3, 3, 3], [3, 3, 3], [1, 1, 1]] ! 0)
         \<union> set ([[3, 3, 3], [3, 3, 3], [3, 3, 3], [1, 1, 1]] ! 1)
   \<and> land_adjacent [[3, 3, 3], [3, 3, 3], [3, 3, 3], [1, 1, 1]]
        [[3, 3, 3], [3, 3, 3], [3, 3, 3], [1, 1, 1]] 3 ! 1 ! 0 ! 1"
  by code_simp

subsection \<open>The tripole treatment\<close>

text \<open>
  Claim C4.  With \<open>ltripole\<close> the assignment to row 0 receives the whole array with its
  rows in reverse order, a value with the dimensions \<open>(nlat, nlon)\<close>, and the cell stops
  with a ValueError: no row is replaced and no neighbour is read.
\<close>

theorem tripole_fold_raises:
  "fst (land_adjacent_points True 3 0 (\<lambda>_. [[1, 2], [3, 4]])) = Inl ValueError"
  by (simp add: land_adjacent_points_True)

text \<open>
  Claim C5.  Whatever the flag and the grid, the cell leaves the store as it found it:
  the array of \<open>ds.KMT\<close> that \<open>kmt_rollable\<close> shares is unchanged, also when the cell
  stops with an error.
\<close>

theorem land_adjacent_points_store_unchanged:
  "snd (land_adjacent_points ltripole nk ds_KMT h) = h"
  by (cases ltripole) (simp_all add: land_adjacent_points_False land_adjacent_points_True)

section \<open>Properties of the elementwise operations\<close>

lemma shape3_level: "shape3 nk nj ni a \<Longrightarrow> k < nk \<Longrightarrow> shape2 nj ni (a ! k)"
  by (simp add: shape3_def list_all_length)

lemma shape3_length: "shape3 nk nj ni a \<Longrightarrow> length a = nk"
  by (simp add: shape3_def)

lemma shape2_length: "shape2 nj ni a \<Longrightarrow> length a = nj"
  by (simp add: shape2_def)

lemma shape2_I:
  "length a = nj \<Longrightarrow> (\<And>j. j < nj \<Longrightarrow> length (a ! j) = ni) \<Longrightarrow> shape2 nj ni a"
  by (simp add: shape2_def list_all_length)

lemma shape3_I:
  "length a = nk \<Longrightarrow> (\<And>k. k < nk \<Longrightarrow> shape2 nj ni (a ! k)) \<Longrightarrow> shape3 nk nj ni a"
  by (simp add: shape3_def list_all_length)

lemma arr2_eqI:
  assumes "shape2 nj ni a" "shape2 nj ni b"
    and "\<And>j i. j < nj \<Longrightarrow> i < ni \<Longrightarrow> a ! j ! i = b ! j ! i"
  shows "a = b"
proof (rule nth_equalityI)
  show "length a = length b" using assms(1,2) by (simp add: shape2_def)
next
  fix j assume "j < length a"
  then have j: "j < nj" using assms(1) by (simp add: shape2_def)
  show "a ! j = b ! j"
    using assms(3)[OF j] shape2_row[OF assms(1) j] shape2_row[OF assms(2) j]
    by (intro nth_equalityI) auto
qed

lemma arr3_eqI:
  assumes "shape3 nk nj ni a" "shape3 nk nj ni b"
    and "\<And>k j i. k < nk \<Longrightarrow> j < nj \<Longrightarrow> i < ni \<Longrightarrow> a ! k ! j ! i = b ! k ! j ! i"
  shows "a = b"
proof (rule nth_equalityI)
  show "length a = length b" using assms(1,2) by (simp add: shape3_def)
next
  fix k assume "k < length a"
  then have k: "k < nk" using assms(1) by (simp add: shape3_def)
  show "a ! k = b ! k"
    using assms(3)[OF k] shape3_level[OF assms(1) k] shape3_level[OF assms(2) k]
    by (intro arr2_eqI) auto
qed

lemma shape3_map3d: "shape3 nk nj ni a \<Longrightarrow> shape3 nk nj ni (map3d f a)"
  by (simp add: shape3_def shape2_def map3d_def list_all_iff)

lemma nth_map3d:
  assumes "shape3 nk nj ni a" "k < nk" "j < nj" "i < ni"
  shows "map3d f a ! k ! j ! i = f (a ! k ! j ! i)"
proof -
  have "length a = nk" "length (a ! k) = nj" "length (a ! k ! j) = ni"
    using assms shape3_level[OF assms(1,2)] by (simp_all add: shape3_def shape2_def list_all_length)
  then show ?thesis using assms by (simp add: map3d_def)
qed

lemma shape3_zip3d:
  "shape3 nk nj ni a \<Longrightarrow> shape3 nk nj ni b \<Longrightarrow> shape3 nk nj ni (zip3d a b)"
  by (auto simp: shape3_def shape2_def zip3d_def list_all_length)

lemma nth_zip3d:
  assumes "shape3 nk nj ni a" "shape3 nk nj ni b" "k < nk" "j < nj" "i < ni"
  shows "zip3d a b ! k ! j ! i = (a ! k ! j ! i, b ! k ! j ! i)"
proof -
  have "length a = nk" "length (a ! k) = nj" "length (a ! k ! j) = ni"
    "length b = nk" "length (b ! k) = nj" "length (b ! k ! j) = ni"
    using assms by (simp_all add: shape3_def shape2_def list_all_length)
  then show ?thesis using assms by (simp add: zip3d_def)
qed

lemma shape2_where2:
  "shape2 nj ni c \<Longrightarrow> shape2 nj ni x \<Longrightarrow> shape2 nj ni y \<Longrightarrow> shape2 nj ni (where2 c x y)"
  by (auto simp: shape2_def where2_def list_all_length)

lemma nth_where2:
  assumes "shape2 nj ni c" "shape2 nj ni x" "shape2 nj ni y" "j < nj" "i < ni"
  shows "where2 c x y ! j ! i = (if c ! j ! i then x ! j ! i else y ! j ! i)"
proof -
  have "length c = nj" "length (c ! j) = ni" "length x = nj" "length (x ! j) = ni"
    "length y = nj" "length (y ! j) = ni"
    using assms by (simp_all add: shape2_def list_all_length)
  then show ?thesis using assms by (simp add: where2_def)
qed

lemma shape3_where3:
  "shape3 nk nj ni c \<Longrightarrow> shape3 nk nj ni x \<Longrightarrow> shape3 nk nj ni y
   \<Longrightarrow> shape3 nk nj ni (where3 c x y)"
  by (auto simp: shape3_def where3_def list_all_length intro: shape2_where2)

lemma nth_where3:
  assumes "shape3 nk nj ni c" "shape3 nk nj ni x" "shape3 nk nj ni y" "k < nk" "j < nj" "i < ni"
  shows "where3 c x y ! k ! j ! i = (if c ! k ! j ! i then x ! k ! j ! i else y ! k ! j ! i)"
proof -
  have "where3 c x y ! k = where2 (c ! k) (x ! k) (y ! k)"
    using assms by (simp add: where3_def shape3_def)
  then show ?thesis
    using assms by (simp add: nth_where2[of nj ni] shape3_level)
qed

lemma any3d_iff:
  assumes "shape3 nk nj ni a"
  shows "any3d a \<longleftrightarrow> (\<exists>k<nk. \<exists>j<nj. \<exists>i<ni. a ! k ! j ! i)"
proof -
  have len: "length a = nk" "\<And>k. k < nk \<Longrightarrow> length (a ! k) = nj"
    "\<And>k j. k < nk \<Longrightarrow> j < nj \<Longrightarrow> length (a ! k ! j) = ni"
    using assms by (simp_all add: shape3_def shape2_def list_all_length)
  show ?thesis
    unfolding any3d_def list_ex_length using len by (auto; blast)
qed

lemma shape3_MASK:
  "shape2 nj ni KMT \<Longrightarrow> 0 < nj \<Longrightarrow> shape3 nk nj ni (MASK nk KMT)"
  using shape2_dims[of nj ni KMT] by (simp add: MASK_def shape3_tabulate3)

lemma MASK_cell:
  "shape2 nj ni KMT \<Longrightarrow> k < nk \<Longrightarrow> j < nj \<Longrightarrow> i < ni
   \<Longrightarrow> MASK nk KMT ! k ! j ! i = (int k < KMT ! j ! i)"
  using shape2_dims[of nj ni KMT] by (simp add: MASK_def nth_tabulate3)

lemma land_adjacent_within_MASK:
  assumes "shape2 nj ni KMT" "k < nk" "j < nj" "i < ni" "land_adjacent kr KMT nk ! k ! j ! i"
  shows "MASK nk KMT ! k ! j ! i"
  using assms shape2_dims[of nj ni KMT]
  by (auto simp: MASK_cell[of nj ni] land_adjacent_cell_rule)

section \<open>Properties of the minimum sediment fraction\<close>

lemma sedfrac_mod_cell:
  assumes "shape3 nk nj ni la" "shape3 nk nj ni s" "shape3 nk nj ni m"
    and "k < nk" "j < nj" "i < ni"
  shows "sedfrac_mod la s fl m ! k ! j ! i
         = (if m ! k ! j ! i
            then (if la ! k ! j ! i \<and> s ! k ! j ! i < fl then fl else s ! k ! j ! i)
            else 0)"
proof -
  let ?c = "map3d (\<lambda>(la, s). la \<and> s < fl) (zip3d la s)"
  let ?f = "where3 ?c (map3d (\<lambda>_. fl) s) s"
  have sc: "shape3 nk nj ni ?c"
    using assms(1,2) by (intro shape3_map3d shape3_zip3d)
  have sf: "shape3 nk nj ni ?f"
    by (intro shape3_where3 sc shape3_map3d assms(2))
  have c: "?c ! k ! j ! i = (la ! k ! j ! i \<and> s ! k ! j ! i < fl)"
    using assms by (simp add: nth_map3d[OF shape3_zip3d] nth_zip3d[of nk nj ni])
  have f: "?f ! k ! j ! i = (if la ! k ! j ! i \<and> s ! k ! j ! i < fl then fl else s ! k ! j ! i)"
    using assms(2,4-6) sc by (simp add: nth_where3[of nk nj ni] shape3_map3d nth_map3d[of nk nj ni] c)
  have "sedfrac_mod la s fl m ! k ! j ! i
        = (case (if m ! k ! j ! i then Some (?f ! k ! j ! i) else None) of None \<Rightarrow> 0 | Some x \<Rightarrow> x)"
    using assms(3-6) sf
    by (simp add: sedfrac_mod_def Let_def fillna_def where_mask_def
        nth_map3d[of nk nj ni] shape3_map3d shape3_zip3d nth_zip3d[of nk nj ni])
  then show ?thesis by (simp add: f)
qed

lemma shape3_land_adjacent:
  "shape2 nj ni KMT \<Longrightarrow> 0 < nj \<Longrightarrow> shape3 nk nj ni (land_adjacent kr KMT nk)"
  using shape2_dims[of nj ni KMT] by (simp add: land_adjacent_def Let_def shape3_tabulate3)

text \<open>
  Claim C6.  For arrays of one shape in which a land-adjacent cell lies inside the
  ocean mask, as the data model has it, the result is the larger of the input and the
  floor at every cell where \<open>land_adjacent\<close> holds, the input itself at every masked
  cell where it does not hold, and 0 at every cell outside the mask.  The operation
  has no error.  With the input 0.01 and the floor 0.03 a land-adjacent cell gives
  0.03 and a masked cell that is not land-adjacent gives 0.01.  The arrays
  \<open>land_adjacent\<close> and \<open>MASK\<close> that the notebook computes from one \<open>KMT\<close> are such
  arrays: every land-adjacent cell lies inside the mask and holds the larger of the
  input and the floor.
\<close>

theorem sedfrac_mod_floor:
  assumes "shape3 nk nj ni land_adj" and "shape3 nk nj ni sedfrac" and "shape3 nk nj ni omask"
    and "shape2 nj ni KMT" and "k < nk" and "j < nj" and "i < ni"
    and "land_adj ! k ! j ! i \<Longrightarrow> omask ! k ! j ! i"
  shows "(land_adj ! k ! j ! i
            \<longrightarrow> sedfrac_mod land_adj sedfrac fl omask ! k ! j ! i = max (sedfrac ! k ! j ! i) fl)
       \<and> (omask ! k ! j ! i \<and> \<not> land_adj ! k ! j ! i
            \<longrightarrow> sedfrac_mod land_adj sedfrac fl omask ! k ! j ! i = sedfrac ! k ! j ! i)
       \<and> (\<not> omask ! k ! j ! i \<longrightarrow> sedfrac_mod land_adj sedfrac fl omask ! k ! j ! i = 0)
       \<and> sedfrac_mod [[[True, False]]] [[[1 / 100, 1 / 100]]] (3 / 100) [[[True, True]]]
           = [[[3 / 100, 1 / 100]]]
       \<and> (land_adjacent KMT KMT nk ! k ! j ! i
            \<longrightarrow> MASK nk KMT ! k ! j ! i
              \<and> sedfrac_mod (land_adjacent KMT KMT nk) sedfrac fl (MASK nk KMT) ! k ! j ! i
                = max (sedfrac ! k ! j ! i) fl)"
proof -
  have nj: "0 < nj" using assms(6) by simp
  have ex: "sedfrac_mod [[[True, False]]] [[[1 / 100, 1 / 100]]] (3 / 100) [[[True, True]]]
           = [[[3 / 100, 1 / 100]]]"
    by (simp add: sedfrac_mod_def where3_def where2_def map3d_def zip3d_def fillna_def
        where_mask_def)
  have general: "sedfrac_mod land_adj sedfrac fl omask ! k ! j ! i
         = (if omask ! k ! j ! i
            then (if land_adj ! k ! j ! i \<and> sedfrac ! k ! j ! i < fl then fl
                  else sedfrac ! k ! j ! i)
            else 0)"
    by (rule sedfrac_mod_cell[OF assms(1-3,5-7)])
  have marked: "sedfrac_mod land_adj sedfrac fl omask ! k ! j ! i = max (sedfrac ! k ! j ! i) fl"
    if la: "land_adj ! k ! j ! i"
    using general assms(8)[OF la] la by (simp add: max_def)
  have computed: "MASK nk KMT ! k ! j ! i
         \<and> sedfrac_mod (land_adjacent KMT KMT nk) sedfrac fl (MASK nk KMT) ! k ! j ! i
           = max (sedfrac ! k ! j ! i) fl"
    if la: "land_adjacent KMT KMT nk ! k ! j ! i"
  proof -
    have m: "MASK nk KMT ! k ! j ! i"
      by (rule land_adjacent_within_MASK[OF assms(4-7) la])
    then show ?thesis
      using la sedfrac_mod_cell[OF shape3_land_adjacent[OF assms(4) nj] assms(2)
          shape3_MASK[OF assms(4) nj] assms(5-7), of KMT fl]
      by (simp add: max_def)
  qed
  show ?thesis using ex general marked computed by simp
qed

theorem sedfrac_mod_floor_witness:
  "sedfrac_mod [[[True, False]]] [[[1 / 100, 5 / 100]]] (3 / 100) [[[True, False]]] ! 0 ! 0 ! 0
   = 3 / 100
   \<and> sedfrac_mod [[[True, False]]] [[[1 / 100, 5 / 100]]] (3 / 100) [[[True, False]]] ! 0 ! 0 ! 1
   = 0"
proof -
  have s: "shape3 1 1 2 [[[True, False]]]" "shape3 1 1 2 [[[1 / 100, 5 / 100 :: real]]]"
    "shape3 1 1 2 [[[True, False]]]" "shape2 1 2 [[1, 0 :: int]]"
    by (simp_all add: shape3_def shape2_def)
  have i: "(0::nat) < 1" "(0::nat) < 2" "(1::nat) < 2" by simp_all
  have inv0: "[[[True, False]]] ! 0 ! 0 ! 0 \<Longrightarrow> [[[True, False]]] ! 0 ! 0 ! 0" by simp
  have inv1: "[[[True, False]]] ! 0 ! 0 ! 1 \<Longrightarrow> [[[True, False]]] ! 0 ! 0 ! 1" by simp
  have "sedfrac_mod [[[True, False]]] [[[1 / 100, 5 / 100]]] (3 / 100) [[[True, False]]]
          ! 0 ! 0 ! 0 = max (1 / 100) (3 / 100)"
    using sedfrac_mod_floor[OF s i(1) i(1) i(2) inv0, of "3 / 100"] by simp
  moreover have "sedfrac_mod [[[True, False]]] [[[1 / 100, 5 / 100]]] (3 / 100)
          [[[True, False]]] ! 0 ! 0 ! 1 = 0"
    using sedfrac_mod_floor[OF s i(1) i(1) i(3) inv1, of "3 / 100"] by simp
  ultimately show ?thesis by simp
qed

section \<open>Properties of the vertical fill\<close>

lemma fill_loop_Suc:
  "1 \<le> m \<Longrightarrow> fill_loop unf (Suc m) t = fill_level unf m (fill_loop unf m t)"
  by (simp add: fill_loop_def)

lemma fill_loop_small: "m \<le> 1 \<Longrightarrow> fill_loop unf m t = t"
  by (simp add: fill_loop_def)

lemma shape3_update:
  "shape3 nk nj ni a \<Longrightarrow> shape2 nj ni l \<Longrightarrow> shape3 nk nj ni (a[k := l])"
  using set_update_subset_insert[of a k l] by (auto simp: shape3_def list_all_iff)

lemma fill_loop_levels:
  assumes "shape3 nk nj ni t" "shape3 nk nj ni unf" "m \<le> nk"
  shows "shape3 nk nj ni (fill_loop unf m t)
       \<and> (\<forall>k<nk. fill_loop unf m t ! k
             = (if 1 \<le> k \<and> k < m
                then where2 (unf ! k) (fill_loop unf m t ! (k - 1)) (t ! k)
                else t ! k))"
  using assms(3)
proof (induction m)
  case 0
  then show ?case using assms(1) by (simp add: fill_loop_small)
next
  case (Suc m)
  show ?case
  proof (cases "m = 0")
    case True
    then show ?thesis using assms(1) by (simp add: fill_loop_small)
  next
    case False
    let ?L = "fill_loop unf m t"
    let ?N = "fill_loop unf (Suc m) t"
    from Suc have m: "m < nk" and IH: "shape3 nk nj ni ?L"
      "\<And>k. k < nk \<Longrightarrow> ?L ! k = (if 1 \<le> k \<and> k < m
                then where2 (unf ! k) (?L ! (k - 1)) (t ! k) else t ! k)"
      by simp_all
    have Lm: "?L ! m = t ! m" using IH(2)[OF m] by simp
    have N: "?N = ?L[m := where2 (unf ! m) (?L ! (m - 1)) (t ! m)]"
      using False by (simp add: fill_loop_Suc fill_level_def Lm)
    have "shape2 nj ni (where2 (unf ! m) (?L ! (m - 1)) (t ! m))"
      using m assms(1,2) IH(1) by (intro shape2_where2 shape3_level[of nk]) simp_all
    then have shape: "shape3 nk nj ni ?N"
      unfolding N using IH(1) by (rule shape3_update[rotated])
    have len: "length ?L = nk" using IH(1) by (simp add: shape3_def)
    have "?N ! k = (if 1 \<le> k \<and> k < Suc m
                then where2 (unf ! k) (?N ! (k - 1)) (t ! k) else t ! k)" if k: "k < nk" for k
    proof -
      consider "k = m" | "1 \<le> k" "k < m" | "k = 0" "k \<noteq> m" | "m < k"
        by linarith
      then show ?thesis
      proof cases
        case 1
        then show ?thesis using False m len by (simp add: N)
      next
        case 2
        then show ?thesis using IH(2)[OF k] len k by (simp add: N)
      next
        case 3
        then show ?thesis using IH(2)[OF k] len k by (simp add: N)
      next
        case 4
        then show ?thesis using IH(2)[OF k] len k by (simp add: N)
      qed
    qed
    with shape show ?thesis by blast
  qed
qed

lemma fill_loop_cell:
  assumes "shape3 nk nj ni t" "shape3 nk nj ni unf" "k < nk" "j < nj" "i < ni"
  shows "fill_loop unf nk t ! k ! j ! i
         = (if 1 \<le> k \<and> unf ! k ! j ! i then fill_loop unf nk t ! (k - 1) ! j ! i
            else t ! k ! j ! i)"
proof -
  let ?N = "fill_loop unf nk t"
  from fill_loop_levels[OF assms(1,2) le_refl]
  have shape: "shape3 nk nj ni ?N"
    and lev: "?N ! k = (if 1 \<le> k \<and> k < nk then where2 (unf ! k) (?N ! (k - 1)) (t ! k) else t ! k)"
    using assms(3) by simp_all
  show ?thesis
  proof (cases "1 \<le> k")
    case True
    then have "k - 1 < nk" using assms(3) by simp
    then have "shape2 nj ni (unf ! k)" "shape2 nj ni (?N ! (k - 1))" "shape2 nj ni (t ! k)"
      using assms(1-3) shape by (simp_all add: shape3_level[of nk])
    then show ?thesis using True assms(3-5) lev by (simp add: nth_where2[of nj ni])
  next
    case False
    then show ?thesis using lev by simp
  qed
qed

lemma shape3_fill_loop:
  "shape3 nk nj ni t \<Longrightarrow> shape3 nk nj ni unf \<Longrightarrow> shape3 nk nj ni (fill_loop unf nk t)"
  using fill_loop_levels[of nk nj ni t unf nk] by simp

lemma unfilled_cell:
  assumes "shape3 nk nj ni t" "shape3 nk nj ni m" "k < nk" "j < nj" "i < ni"
  shows "and3d (isnull t) m ! k ! j ! i = (t ! k ! j ! i = None \<and> m ! k ! j ! i)"
  using assms
  by (simp add: and3d_def isnull_def nth_map3d[of nk nj ni] nth_zip3d[of nk nj ni]
      shape3_map3d shape3_zip3d)

lemma shape3_unfilled:
  "shape3 nk nj ni t \<Longrightarrow> shape3 nk nj ni m \<Longrightarrow> shape3 nk nj ni (and3d (isnull t) m)"
  by (simp add: and3d_def isnull_def shape3_map3d shape3_zip3d)

lemma any_unfilled_iff:
  assumes "shape3 nk nj ni t" "shape3 nk nj ni m"
  shows "any3d (and3d (isnull t) m)
         \<longleftrightarrow> (\<exists>k<nk. \<exists>j<nj. \<exists>i<ni. m ! k ! j ! i \<and> t ! k ! j ! i = None)"
proof -
  have "(\<exists>k<nk. \<exists>j<nj. \<exists>i<ni. and3d (isnull t) m ! k ! j ! i)
        \<longleftrightarrow> (\<exists>k<nk. \<exists>j<nj. \<exists>i<ni. m ! k ! j ! i \<and> t ! k ! j ! i = None)"
    using unfilled_cell[OF assms] by blast
  then show ?thesis by (simp add: any3d_iff[OF shape3_unfilled[OF assms]])
qed

lemma shape3_vertical_fill:
  assumes "shape3 nk nj ni t" "shape3 nk nj ni m"
  shows "shape3 nk nj ni (fst (vertical_fill name nk m t))"
  using assms by (simp add: vertical_fill_def Let_def shape3_fill_loop shape3_unfilled)

lemma vertical_fill_cell:
  assumes "shape3 nk nj ni t" "shape3 nk nj ni m" "k < nk" "j < nj" "i < ni"
  shows "fst (vertical_fill name nk m t) ! k ! j ! i
         = (if 1 \<le> k \<and> t ! k ! j ! i = None \<and> m ! k ! j ! i
            then fst (vertical_fill name nk m t) ! (k - 1) ! j ! i
            else t ! k ! j ! i)"
proof (cases "any3d (and3d (isnull t) m)")
  case True
  then have "fst (vertical_fill name nk m t) = fill_loop (and3d (isnull t) m) nk t"
    by (simp add: vertical_fill_def Let_def)
  then show ?thesis
    using fill_loop_cell[OF assms(1) shape3_unfilled[OF assms(1,2)] assms(3-5)]
    by (simp add: unfilled_cell[OF assms])
next
  case False
  then have "fst (vertical_fill name nk m t) = t"
    by (simp add: vertical_fill_def Let_def)
  moreover have "\<not> (t ! k ! j ! i = None \<and> m ! k ! j ! i)"
    using False assms(3-5) by (auto simp: any_unfilled_iff[OF assms(1,2)])
  ultimately show ?thesis by auto
qed

lemma missing_column:
  assumes "shape2 nj ni KMT" "shape3 nk nj ni t" "j < nj" "i < ni"
  shows "k < nk \<Longrightarrow> MASK nk KMT ! k ! j ! i
         \<Longrightarrow> fst (vertical_fill name nk (MASK nk KMT) t) ! k ! j ! i = None
         \<Longrightarrow> k' \<le> k
         \<Longrightarrow> t ! k' ! j ! i = None \<and> fst (vertical_fill name nk (MASK nk KMT) t) ! k' ! j ! i = None"
proof (induction k arbitrary: k')
  case 0
  then show ?case
    using vertical_fill_cell[OF assms(2) shape3_MASK[OF assms(1)], of 0 j i name] assms(3,4)
    by simp
next
  case (Suc k)
  let ?m = "MASK nk KMT"
  let ?new = "fst (vertical_fill name nk ?m t)"
  have nj: "0 < nj" using assms(3) by simp
  have cell: "?new ! Suc k ! j ! i
      = (if t ! Suc k ! j ! i = None \<and> ?m ! Suc k ! j ! i then ?new ! k ! j ! i
         else t ! Suc k ! j ! i)"
    using vertical_fill_cell[OF assms(2) shape3_MASK[OF assms(1) nj] Suc.prems(1) assms(3,4), of name]
    by simp
  have t: "t ! Suc k ! j ! i = None" using cell Suc.prems(3) by (auto split: if_splits)
  then have above: "?new ! k ! j ! i = None" using cell Suc.prems(2,3) by simp
  have "?m ! k ! j ! i"
    using Suc.prems(1,2) assms(1,3,4) by (simp add: MASK_cell[of nj ni])
  with above Suc.IH Suc.prems(1)
  have "t ! k'' ! j ! i = None \<and> ?new ! k'' ! j ! i = None" if "k'' \<le> k" for k''
    using that by simp
  then show ?case using t Suc.prems(3,4) by (cases "k' = Suc k") auto
qed

lemma surface_gap_stays:
  assumes "shape3 nk nj ni t" "shape3 nk nj ni m" "j < nj" "i < ni"
  shows "k < nk \<Longrightarrow> (\<forall>k'\<le>k. t ! k' ! j ! i = None)
         \<Longrightarrow> fst (vertical_fill name nk m t) ! k ! j ! i = None"
proof (induction k)
  case 0
  then show ?case using vertical_fill_cell[OF assms(1,2) _ assms(3,4), of 0 name] by simp
next
  case (Suc k)
  have "fst (vertical_fill name nk m t) ! k ! j ! i = None" using Suc by simp
  moreover have "t ! Suc k ! j ! i = None" using Suc.prems(2) by simp
  ultimately show ?case
    using vertical_fill_cell[OF assms(1,2) Suc.prems(1) assms(3,4), of name] by simp
qed

text \<open>
  Claim C7.  With the mask of the grid, after the pass a masked missing cell below the
  surface holds the value that the pass left one level above it; a cell that was not
  missing keeps its value; and a masked cell that is still missing lies in a column
  that was missing, and still is, at every level from the surface down to the cell.
  The pass alters neither the surface level nor a cell outside the mask, and it
  resolves no gap that starts at the surface: a cell whose column is missing at every
  level from the surface down to it is still missing after the pass.
\<close>

theorem vertical_fill_pass:
  assumes "shape2 nj ni KMT" and "shape3 nk nj ni t" and "k < nk" and "j < nj" and "i < ni"
  shows "(1 \<le> k \<and> MASK nk KMT ! k ! j ! i \<and> t ! k ! j ! i = None
            \<longrightarrow> fst (vertical_fill name nk (MASK nk KMT) t) ! k ! j ! i
                = fst (vertical_fill name nk (MASK nk KMT) t) ! (k - 1) ! j ! i)
       \<and> (t ! k ! j ! i \<noteq> None
            \<longrightarrow> fst (vertical_fill name nk (MASK nk KMT) t) ! k ! j ! i = t ! k ! j ! i)
       \<and> (MASK nk KMT ! k ! j ! i \<and> fst (vertical_fill name nk (MASK nk KMT) t) ! k ! j ! i = None
            \<longrightarrow> (\<forall>k'\<le>k. t ! k' ! j ! i = None
                    \<and> fst (vertical_fill name nk (MASK nk KMT) t) ! k' ! j ! i = None))
       \<and> fst (vertical_fill name nk (MASK nk KMT) t) ! 0 ! j ! i = t ! 0 ! j ! i
       \<and> (\<not> MASK nk KMT ! k ! j ! i
            \<longrightarrow> fst (vertical_fill name nk (MASK nk KMT) t) ! k ! j ! i = t ! k ! j ! i)
       \<and> ((\<forall>k'\<le>k. t ! k' ! j ! i = None)
            \<longrightarrow> fst (vertical_fill name nk (MASK nk KMT) t) ! k ! j ! i = None)"
proof -
  have nj: "0 < nj" using assms(4) by simp
  have nk: "0 < nk" using assms(3) by simp
  note sm = shape3_MASK[OF assms(1) nj]
  note cell = vertical_fill_cell[OF assms(2) sm assms(3-5), of name]
  have a: "fst (vertical_fill name nk (MASK nk KMT) t) ! k ! j ! i
                = fst (vertical_fill name nk (MASK nk KMT) t) ! (k - 1) ! j ! i"
    if "1 \<le> k" "MASK nk KMT ! k ! j ! i" "t ! k ! j ! i = None"
    using cell that by simp
  have b: "fst (vertical_fill name nk (MASK nk KMT) t) ! k ! j ! i = t ! k ! j ! i"
    if "t ! k ! j ! i \<noteq> None"
    using cell that by simp
  have c: "\<forall>k'\<le>k. t ! k' ! j ! i = None
                    \<and> fst (vertical_fill name nk (MASK nk KMT) t) ! k' ! j ! i = None"
    if "MASK nk KMT ! k ! j ! i" "fst (vertical_fill name nk (MASK nk KMT) t) ! k ! j ! i = None"
    using missing_column[OF assms(1,2,4,5,3) that] by blast
  have d: "fst (vertical_fill name nk (MASK nk KMT) t) ! 0 ! j ! i = t ! 0 ! j ! i"
    using vertical_fill_cell[OF assms(2) sm nk assms(4,5), of name] by simp
  have e: "fst (vertical_fill name nk (MASK nk KMT) t) ! k ! j ! i = t ! k ! j ! i"
    if "\<not> MASK nk KMT ! k ! j ! i"
    using cell that by simp
  have f: "fst (vertical_fill name nk (MASK nk KMT) t) ! k ! j ! i = None"
    if "\<forall>k'\<le>k. t ! k' ! j ! i = None"
    using surface_gap_stays[OF assms(2) sm assms(4,5,3) that] .
  show ?thesis using a b c d e f by blast
qed

theorem vertical_fill_pass_witness:
  "fst (vertical_fill ''NO3'' 3 (MASK 3 [[3]]) [[[Some 1]], [[None]], [[None]]]) ! 2 ! 0 ! 0
   = fst (vertical_fill ''NO3'' 3 (MASK 3 [[3]]) [[[Some 1]], [[None]], [[None]]]) ! 1 ! 0 ! 0
   \<and> fst (vertical_fill ''NO3'' 3 (MASK 3 [[3]]) [[[Some 1]], [[None]], [[None]]]) ! 0 ! 0 ! 0
     = Some 1
   \<and> fst (vertical_fill ''NO3'' 3 (MASK 3 [[3]]) [[[None]], [[None]], [[Some 5]]]) ! 1 ! 0 ! 0
     = None
   \<and> fst (vertical_fill ''NO3'' 3 (MASK 3 [[1]]) [[[Some 1]], [[None]], [[None]]]) ! 2 ! 0 ! 0
     = None"
proof -
  let ?t = "[[[Some 1]], [[None]], [[None]]] :: field"
  let ?u = "[[[None]], [[None]], [[Some 5]]] :: field"
  have s: "shape2 1 1 [[3::int]]" "shape3 3 1 1 ?t"
    by (simp_all add: shape3_def shape2_def)
  have su: "shape3 3 1 1 ?u" by (simp add: shape3_def shape2_def)
  have s1: "shape2 1 1 [[1::int]]" by (simp add: shape2_def)
  have i: "(2::nat) < 3" "(0::nat) < 1" "(0::nat) < 3" "(1::nat) < 3" by simp_all
  have m: "MASK 3 [[3]] ! 2 ! 0 ! 0" by code_simp
  have m1: "\<not> MASK 3 [[1]] ! 2 ! 0 ! 0" by code_simp
  have a1: "1 \<le> (2::nat) \<and> MASK 3 [[3]] ! 2 ! 0 ! 0 \<and> ?t ! 2 ! 0 ! 0 = None"
    using m by simp
  have a2: "?t ! 0 ! 0 ! 0 \<noteq> None" by simp
  have a3: "\<forall>k'\<le>(1::nat). ?u ! k' ! 0 ! 0 = None"
    by (auto simp: le_Suc_eq)
  have "fst (vertical_fill ''NO3'' 3 (MASK 3 [[3]]) ?t) ! 2 ! 0 ! 0
        = fst (vertical_fill ''NO3'' 3 (MASK 3 [[3]]) ?t) ! (2 - 1) ! 0 ! 0"
    using vertical_fill_pass[OF s i(1) i(2) i(2), of "''NO3''"] a1 by blast
  moreover have "fst (vertical_fill ''NO3'' 3 (MASK 3 [[3]]) ?t) ! 0 ! 0 ! 0 = ?t ! 0 ! 0 ! 0"
    using vertical_fill_pass[OF s i(3) i(2) i(2), of "''NO3''"] a2 by blast
  moreover have "fst (vertical_fill ''NO3'' 3 (MASK 3 [[3]]) ?u) ! 1 ! 0 ! 0 = None"
    using vertical_fill_pass[OF s(1) su i(4) i(2) i(2), of "''NO3''"] a3 by blast
  moreover have "fst (vertical_fill ''NO3'' 3 (MASK 3 [[1]]) ?t) ! 2 ! 0 ! 0 = ?t ! 2 ! 0 ! 0"
    using vertical_fill_pass[OF s1 s(2) i(1) i(2) i(2), of "''NO3''"] m1 by blast
  ultimately show ?thesis by simp
qed

text \<open>
  Claim C8.  For every field and mask of one shape, the vertical fill of the filled
  field is the filled field.
\<close>

theorem vertical_fill_idempotent:
  assumes "shape3 nk nj ni t" and "shape3 nk nj ni omask"
  shows "fst (vertical_fill name nk omask (fst (vertical_fill name nk omask t)))
         = fst (vertical_fill name nk omask t)"
proof -
  let ?new = "fst (vertical_fill name nk omask t)"
  let ?new2 = "fst (vertical_fill name nk omask ?new)"
  have s1: "shape3 nk nj ni ?new" by (rule shape3_vertical_fill[OF assms])
  have s2: "shape3 nk nj ni ?new2" by (rule shape3_vertical_fill[OF s1 assms(2)])
  have cell: "k < nk \<Longrightarrow> ?new2 ! k ! j ! i = ?new ! k ! j ! i" if ji: "j < nj" "i < ni" for k j i
  proof (induction k)
    case 0
    then show ?case using vertical_fill_cell[OF s1 assms(2) _ ji, of 0 name] by simp
  next
    case (Suc k)
    have c2: "?new2 ! Suc k ! j ! i
      = (if ?new ! Suc k ! j ! i = None \<and> omask ! Suc k ! j ! i then ?new2 ! k ! j ! i
         else ?new ! Suc k ! j ! i)"
      using vertical_fill_cell[OF s1 assms(2) Suc.prems ji, of name] by simp
    have c1: "?new ! Suc k ! j ! i
      = (if t ! Suc k ! j ! i = None \<and> omask ! Suc k ! j ! i then ?new ! k ! j ! i
         else t ! Suc k ! j ! i)"
      using vertical_fill_cell[OF assms Suc.prems ji, of name] by simp
    have IH: "?new2 ! k ! j ! i = ?new ! k ! j ! i" using Suc by simp
    show ?case
    proof (cases "?new ! Suc k ! j ! i = None \<and> omask ! Suc k ! j ! i")
      case True
      then have "t ! Suc k ! j ! i = None" using c1 by (auto split: if_splits)
      then have "?new ! Suc k ! j ! i = ?new ! k ! j ! i" using c1 True by simp
      then show ?thesis using c2 True IH by simp
    next
      case False
      then show ?thesis using c2 by auto
    qed
  qed
  show ?thesis by (rule arr3_eqI[OF s2 s1]) (rule cell)
qed

theorem vertical_fill_idempotent_witness:
  "fst (vertical_fill ''NO3'' 2 [[[True, True]], [[True, False]]]
         (fst (vertical_fill ''NO3'' 2 [[[True, True]], [[True, False]]]
                [[[Some 1, None]], [[None, None]]])))
   = [[[Some 1, None]], [[Some 1, None]]]"
proof -
  have s: "shape3 2 1 2 [[[Some (1::real), None]], [[None, None]]]"
    "shape3 2 1 2 [[[True, True]], [[True, False]]]"
    by (simp_all add: shape3_def shape2_def)
  have e: "fst (vertical_fill ''NO3'' 2 [[[True, True]], [[True, False]]]
                [[[Some 1, None]], [[None, None]]])
           = [[[Some 1, None]], [[Some 1, None]]]"
    by code_simp
  from vertical_fill_idempotent[OF s, of "''NO3''"] e
  show ?thesis by simp
qed

lemma vertical_fill_msgs:
  assumes "shape3 nk nj ni t" and "shape3 nk nj ni omask"
  shows "snd (vertical_fill name nk omask t)
         = (if (\<exists>k<nk. \<exists>j<nj. \<exists>i<ni. omask ! k ! j ! i
                   \<and> fst (vertical_fill name nk omask t) ! k ! j ! i = None)
            then [name @ '' still has missing values''] else [])"
proof (cases "any3d (and3d (isnull t) omask)")
  case True
  let ?new = "fill_loop (and3d (isnull t) omask) nk t"
  have new: "fst (vertical_fill name nk omask t) = ?new"
    using True by (simp add: vertical_fill_def Let_def)
  have s: "shape3 nk nj ni ?new"
    using shape3_vertical_fill[OF assms, of name] by (simp add: new)
  have "any3d (and3d (isnull ?new) omask)
        \<longleftrightarrow> (\<exists>k<nk. \<exists>j<nj. \<exists>i<ni. omask ! k ! j ! i \<and> ?new ! k ! j ! i = None)"
    by (rule any_unfilled_iff[OF s assms(2)])
  then show ?thesis
    using True by (auto simp: vertical_fill_def Let_def)
next
  case False
  then have "\<not> (\<exists>k<nk. \<exists>j<nj. \<exists>i<ni. omask ! k ! j ! i \<and> t ! k ! j ! i = None)"
    by (simp add: any_unfilled_iff[OF assms])
  then show ?thesis
    using False by (simp add: vertical_fill_def Let_def)
qed

lemma lookup_setitem: "lookup (setitem name v st) name = Some v"
  by (simp add: lookup_def setitem_def)

text \<open>
  Claim C9.  The turn of the loop passes the message that names the tracer to
  \<open>warnings.warn\<close> exactly when a masked cell of the filled field is missing, passes
  nothing otherwise, and in both cases stores the filled field in the dataset under the
  name of the tracer.
\<close>

theorem residual_gap_warning:
  assumes "shape3 nk nj ni (vals tracer)" and "shape3 nk nj ni omask"
  shows "\<exists>new. new = fst (vertical_fill name nk omask (vals tracer))
     \<and> lookup (fill_and_store name nk omask tracer st) name = Some (tracer\<lparr>vals := new\<rparr>)
     \<and> warned (fill_and_store name nk omask tracer st)
         = warned st @ (if (\<exists>k<nk. \<exists>j<nj. \<exists>i<ni. omask ! k ! j ! i \<and> new ! k ! j ! i = None)
                        then [name @ '' still has missing values''] else [])"
proof -
  obtain new msgs where vf: "vertical_fill name nk omask (vals tracer) = (new, msgs)"
    by (cases "vertical_fill name nk omask (vals tracer)")
  have "msgs = (if (\<exists>k<nk. \<exists>j<nj. \<exists>i<ni. omask ! k ! j ! i \<and> new ! k ! j ! i = None)
                then [name @ '' still has missing values''] else [])"
    using vertical_fill_msgs[OF assms, of name] by (simp add: vf)
  then show ?thesis
    by (simp add: fill_and_store_def vf lookup_setitem) (simp add: setitem_def)
qed

theorem residual_gap_warning_witness:
  "warned (fill_and_store ''NO3'' 2 [[[True]], [[True]]]
            \<lparr>vals = [[[None]], [[None]]], attrs = Map.empty\<rparr>
            \<lparr>ds_out = Map.empty, objs = [], warned = []\<rparr>)
   = [''NO3 still has missing values'']
   \<and> lookup (fill_and_store ''NO3'' 2 [[[True]], [[True]]]
            \<lparr>vals = [[[None]], [[None]]], attrs = Map.empty\<rparr>
            \<lparr>ds_out = Map.empty, objs = [], warned = []\<rparr>) ''NO3''
     = Some \<lparr>vals = [[[None]], [[None]]], attrs = Map.empty\<rparr>"
proof -
  have s: "shape3 2 1 1 (vals \<lparr>vals = [[[None]], [[None]]], attrs = Map.empty\<rparr>)"
    "shape3 2 1 1 [[[True]], [[True]]]"
    by (simp_all add: shape3_def shape2_def)
  have e: "fst (vertical_fill ''NO3'' 2 [[[True]], [[True]]] [[[None]], [[None]]])
           = [[[None]], [[None]]]"
    by code_simp
  have x: "\<exists>k<2. \<exists>j<1. \<exists>i<1. [[[True]], [[True]]] ! k ! j ! i
             \<and> ([[[None]], [[None]]] :: field) ! k ! j ! i = None"
    by (intro exI[of _ 0]) simp
  from residual_gap_warning[OF s, of "''NO3''" "\<lparr>ds_out = Map.empty, objs = [], warned = []\<rparr>"]
  show ?thesis using e x by simp
qed

section \<open>Properties of the derived quantities\<close>

text \<open>
  Claim C10.  When the dataset holds \<open>DIC\<close>, \<open>ALK\<close>, \<open>DOC\<close> and \<open>DOCr\<close>, the last
  two as distinct objects of one shape, the cell ends without error; afterwards the
  variables \<open>DOC\<close> and \<open>DOCtot\<close> of the dataset both hold the sum of the former values
  of \<open>DOC\<close> and \<open>DOCr\<close>, and the variable \<open>DOCr\<close> is as before.
\<close>

theorem DOCtot_overwrites_DOC:
  assumes "ds_out st ''DIC'' = Some a_dic" and "ds_out st ''ALK'' = Some a_alk"
    and "ds_out st ''DOC'' = Some a" and "ds_out st ''DOCr'' = Some b"
    and "a < length (objs st)" and "b < length (objs st)" and "a \<noteq> b"
    and "shape_of (np_add (vals (objs st ! a)) (vals (objs st ! b)))
         = shape_of (vals (objs st ! a))"
  shows "\<exists>st'. derived_quantities np_add st = Inr st'
     \<and> map_option vals (lookup st' ''DOC'')
         = Some (np_add (vals (objs st ! a)) (vals (objs st ! b)))
     \<and> map_option vals (lookup st' ''DOCtot'')
         = Some (np_add (vals (objs st ! a)) (vals (objs st ! b)))
     \<and> lookup st' ''DOCr'' = lookup st ''DOCr''"
proof -
  let ?h = "objs st"
  let ?sum = "np_add (vals (?h ! a)) (vals (?h ! b))"
  let ?st1 = "setitem ''DIC_ALT_CO2'' (?h ! a_dic) st"
  let ?st2 = "setitem ''ALK_ALT_CO2'' (objs ?st1 ! a_alk) ?st1"
  have c1: "copy_variable ''DIC_ALT_CO2'' ''DIC'' st = Inr ?st1"
    using assms(1) by (simp add: copy_variable_def getitem_def and_then_def)
  have c2: "copy_variable ''ALK_ALT_CO2'' ''ALK'' ?st1 = Inr ?st2"
    using assms(2) by (simp add: copy_variable_def getitem_def setitem_def and_then_def)
  have g: "getitem ?st2 ''DOC'' = Inr a" "getitem ?st2 ''DOCr'' = Inr b"
    using assms(3,4) by (simp_all add: getitem_def setitem_def)
  have h2: "objs ?st2 ! a = ?h ! a" "objs ?st2 ! b = ?h ! b"
    using assms(5,6) by (simp_all add: setitem_def nth_append)
  let ?st3 = "?st2\<lparr>objs := (objs ?st2)[a := (?h ! a)\<lparr>vals := ?sum\<rparr>]\<rparr>"
  have sv: "set_values a ?sum ?st2 = Inr ?st3"
    using assms(8) by (simp add: set_values_def h2)
  let ?st4 = "set_attr a ''long_name'' ''DOC + DOCr'' ?st3"
  let ?st' = "setitem ''DOCtot'' (objs ?st4 ! a) ?st4"
  have run: "derived_quantities np_add st = Inr ?st'"
    by (simp add: derived_quantities_def and_then_def c1 c2 g sv h2 Let_def)
  have len: "a < length (objs ?st2)" "b < length (objs ?st2)"
    using assms(5,6) by (simp_all add: setitem_def)
  have o4a: "vals (objs ?st4 ! a) = ?sum"
    using len by (simp add: set_attr_def)
  have o4b: "objs ?st4 ! b = ?h ! b"
    using len assms(7) h2 by (simp add: set_attr_def)
  have len4: "a < length (objs ?st4)" "b < length (objs ?st4)"
    using len by (simp_all add: set_attr_def)
  have d4: "ds_out ?st4 ''DOC'' = Some a" "ds_out ?st4 ''DOCr'' = Some b"
    using assms(3,4) by (simp_all add: set_attr_def setitem_def)
  have "map_option vals (lookup ?st' ''DOC'') = Some ?sum"
    using d4 len4 o4a by (simp add: lookup_def setitem_def nth_append)
  moreover have "map_option vals (lookup ?st' ''DOCtot'') = Some ?sum"
    using o4a by (simp add: lookup_setitem)
  moreover have "lookup ?st' ''DOCr'' = lookup st ''DOCr''"
    using d4 len4 o4b assms(4) by (simp add: lookup_def setitem_def nth_append)
  ultimately show ?thesis using run by blast
qed

theorem DOCtot_overwrites_DOC_witness:
  "\<exists>st'. derived_quantities (\<lambda>x y. map3d (\<lambda>(u, v). case u of None \<Rightarrow> None
                 | Some p \<Rightarrow> (case v of None \<Rightarrow> None | Some q \<Rightarrow> Some (p + q))) (zip3d x y))
           \<lparr>ds_out = [''DIC'' \<mapsto> 0, ''ALK'' \<mapsto> 1, ''DOC'' \<mapsto> 2, ''DOCr'' \<mapsto> 3],
             objs = [\<lparr>vals = [[[Some 7]]], attrs = Map.empty\<rparr>,
                     \<lparr>vals = [[[Some 8]]], attrs = Map.empty\<rparr>,
                     \<lparr>vals = [[[Some 2]]], attrs = Map.empty\<rparr>,
                     \<lparr>vals = [[[Some 3]]], attrs = Map.empty\<rparr>],
             warned = []\<rparr> = Inr st'
     \<and> map_option vals (lookup st' ''DOC'') = Some [[[Some 5]]]
     \<and> map_option vals (lookup st' ''DOCtot'') = Some [[[Some 5]]]
     \<and> lookup st' ''DOCr'' = Some \<lparr>vals = [[[Some 3]]], attrs = Map.empty\<rparr>"
proof -
  let ?add = "\<lambda>x y. map3d (\<lambda>(u, v). case u of None \<Rightarrow> None
                 | Some p \<Rightarrow> (case v of None \<Rightarrow> None | Some q \<Rightarrow> Some (p + q :: real))) (zip3d x y)"
  let ?st = "\<lparr>ds_out = [''DIC'' \<mapsto> 0, ''ALK'' \<mapsto> 1, ''DOC'' \<mapsto> 2, ''DOCr'' \<mapsto> 3],
             objs = [\<lparr>vals = [[[Some 7]]], attrs = Map.empty\<rparr>,
                     \<lparr>vals = [[[Some 8]]], attrs = Map.empty\<rparr>,
                     \<lparr>vals = [[[Some 2]]], attrs = Map.empty\<rparr>,
                     \<lparr>vals = [[[Some 3]]], attrs = Map.empty\<rparr>],
             warned = []\<rparr>"
  have h: "ds_out ?st ''DIC'' = Some 0" "ds_out ?st ''ALK'' = Some 1"
    "ds_out ?st ''DOC'' = Some 2" "ds_out ?st ''DOCr'' = Some 3"
    "2 < length (objs ?st)" "3 < length (objs ?st)" "(2::nat) \<noteq> 3"
    "shape_of (?add (vals (objs ?st ! 2)) (vals (objs ?st ! 3)))
         = shape_of (vals (objs ?st ! 2))"
    by (simp_all add: shape_of_def map3d_def zip3d_def)
  have sum: "?add (vals (objs ?st ! 2)) (vals (objs ?st ! 3)) = [[[Some 5]]]"
    by (simp add: map3d_def zip3d_def)
  have l: "lookup ?st ''DOCr'' = Some \<lparr>vals = [[[Some 3]]], attrs = Map.empty\<rparr>"
    by (simp add: lookup_def)
  from DOCtot_overwrites_DOC[of ?st 0 1 2 3 ?add, OF h]
  show ?thesis by (simp only: sum l)
qed

end
